theory Spec2Isabelle
  imports Complex_Main
begin

section \<open>Strings and the string operations the server uses\<close>

text \<open>
  A JavaScript string is a sequence of UTF-16 code units. The model uses \<open>string\<close>
  (a \<open>char list\<close>), one \<open>char\<close> per code unit, so it covers the strings whose code
  units are below 256. The characters the resolver and the path functions inspect (dash,
  dot, slash, the decimal digits) lie in that range; \<open>toLowerCase\<close> and \<open>trim\<close> are
  modelled on that range.
\<close>

definition lastIndexOf :: "string \<Rightarrow> char \<Rightarrow> int" where
  \<comment> \<open>\<open>s.lastIndexOf(c)\<close>: the index of the last occurrence of \<open>c\<close>, or \<open>-1\<close>.\<close>
  "lastIndexOf s c =
     (if c \<in> set s then int (length s) - 1 - int (length (takeWhile (\<lambda>x. x \<noteq> c) (rev s)))
      else - 1)"

definition substring_from :: "string \<Rightarrow> int \<Rightarrow> string" where
  \<comment> \<open>\<open>s.substring(i)\<close>; a negative index counts as 0.\<close>
  "substring_from s i = drop (nat i) s"

definition substring_to :: "string \<Rightarrow> int \<Rightarrow> string" where
  \<comment> \<open>\<open>s.substring(0, j)\<close>; a negative index counts as 0.\<close>
  "substring_to s j = take (nat j) s"

definition slice :: "string \<Rightarrow> int \<Rightarrow> int \<Rightarrow> string" where
  \<comment> \<open>\<open>s.slice(a, b)\<close> for \<open>0 \<le> a\<close> and \<open>0 \<le> b\<close>; empty when \<open>b \<le> a\<close>.\<close>
  "slice s a b = take (nat b - nat a) (drop (nat a) s)"

definition isDigit :: "char \<Rightarrow> bool" where
  \<comment> \<open>the class \<open>\d\<close> of a regular expression without the unicode flag: \<open>0\<close> to \<open>9\<close>.\<close>
  "isDigit c = (c \<in> set ''0123456789'')"

definition test_digits :: "string \<Rightarrow> bool" where
  \<comment> \<open>\<open>/^\d+$/.test(s)\<close>: without the \<open>m\<close> flag the anchors are the ends of \<open>s\<close>.\<close>
  "test_digits s = (s \<noteq> [] \<and> list_all isDigit s)"

section \<open>Node's \<open>path.parse\<close> and \<open>path.extname\<close> (POSIX)\<close>

text \<open>
  Both library functions scan the path from its last character to the left with the same
  loop body; \<open>path.parse\<close> stops before index 0 when the path is absolute. The record holds
  the loop's variables, \<open>- 1\<close> meaning "not seen yet" as in the library.
\<close>

record scan_state =
  startDot :: int
  startPart :: int
  end_pos :: int
  matchedSlash :: bool
  preDotState :: int

definition scan_init :: scan_state where
  "scan_init = \<lparr>startDot = - 1, startPart = 0, end_pos = - 1, matchedSlash = True, preDotState = 0\<rparr>"

definition scan_char :: "char \<Rightarrow> int \<Rightarrow> scan_state \<Rightarrow> scan_state" where
  \<comment> \<open>the loop body for a character that is not a slash, at index \<open>i\<close>\<close>
  "scan_char code i st =
     (let st1 = (if end_pos st = - 1 then st\<lparr>matchedSlash := False, end_pos := i + 1\<rparr> else st)
      in if code = CHR ''.'' then
           (if startDot st1 = - 1 then st1\<lparr>startDot := i\<rparr>
            else if preDotState st1 \<noteq> 1 then st1\<lparr>preDotState := 1\<rparr> else st1)
         else if startDot st1 \<noteq> - 1 then st1\<lparr>preDotState := - 1\<rparr>
         else st1)"

fun scan_loop :: "string \<Rightarrow> nat \<Rightarrow> nat \<Rightarrow> scan_state \<Rightarrow> scan_state" where
  \<comment> \<open>\<open>for (i = n - 1; i >= start; --i)\<close>; the third argument is \<open>i + 1\<close>\<close>
  "scan_loop path start 0 st = st"
| "scan_loop path start (Suc i) st =
     (if i < start then st
      else if path ! i = CHR ''/'' then
        (if \<not> matchedSlash st then st\<lparr>startPart := int i + 1\<rparr>
         else scan_loop path start i st)
      else scan_loop path start i (scan_char (path ! i) (int i) st))"

definition no_extension :: "scan_state \<Rightarrow> bool" where
  \<comment> \<open>no dot, a dot that starts the component, or the component is exactly \<open>..\<close>\<close>
  "no_extension st =
     (startDot st = - 1 \<or> preDotState st = 0 \<or>
      (preDotState st = 1 \<and> startDot st = end_pos st - 1 \<and> startDot st = startPart st + 1))"

definition path_parse_name :: "string \<Rightarrow> string" where
  \<comment> \<open>\<open>path.parse(p).name\<close>\<close>
  "path_parse_name p =
     (if p = [] then []
      else
        let isAbsolute = (hd p = CHR ''/'');
            st = scan_loop p (if isAbsolute then 1 else 0) (length p) scan_init
        in if end_pos st \<noteq> - 1 then
             (let start = (if startPart st = 0 \<and> isAbsolute then 1 else startPart st)
              in if no_extension st then slice p start (end_pos st)
                 else slice p start (startDot st))
           else [])"

definition path_extname :: "string \<Rightarrow> string" where
  \<comment> \<open>\<open>path.extname(p)\<close>\<close>
  "path_extname p =
     (let st = scan_loop p 0 (length p) scan_init
      in if end_pos st = - 1 \<or> no_extension st then []
         else slice p (startDot st) (end_pos st))"

section \<open>File name utility functions\<close>

definition getBaseName :: "string \<Rightarrow> string" where
  "getBaseName filename =
     (let nameWithoutExt = path_parse_name filename;
          lastDashIndex = lastIndexOf nameWithoutExt CHR ''-''
      in if lastDashIndex > 0 then
           (let suffix = substring_from nameWithoutExt (lastDashIndex + 1)
            in if test_digits suffix then substring_to nameWithoutExt lastDashIndex
               else nameWithoutExt)
         else nameWithoutExt)"

definition toLowerChar :: "char \<Rightarrow> char" where
  \<comment> \<open>\<open>toLowerCase\<close> on one code unit below 256: \<open>A\<close> to \<open>Z\<close>, and the Latin-1 capitals
     (192 to 222 but the multiplication sign 215), move up by 32\<close>
  "toLowerChar c =
     (let n = (of_char c :: nat)
      in if (65 \<le> n \<and> n \<le> 90) \<or> (192 \<le> n \<and> n \<le> 222 \<and> n \<noteq> 215) then char_of (n + 32)
         else c)"

definition toLowerCase :: "string \<Rightarrow> string" where
  "toLowerCase s = map toLowerChar s"

definition isWhitespace :: "char \<Rightarrow> bool" where
  \<comment> \<open>the white space and line terminators \<open>trim\<close> removes, among the code units below
     256: tab, line feed, vertical tab, form feed, carriage return, space, no-break space\<close>
  "isWhitespace c = ((of_char c :: nat) \<in> {9, 10, 11, 12, 13, 32, 160})"

definition trim :: "string \<Rightarrow> string" where
  "trim s = rev (dropWhile isWhitespace (rev (dropWhile isWhitespace s)))"

definition split_pop :: "string \<Rightarrow> string" where
  \<comment> \<open>\<open>s.split('/').pop() || \<^verbatim>\<open>''\<close>\<close>: the part after the last slash; the split of a
     string is never empty, and an empty last part is already the empty string\<close>
  "split_pop s = rev (takeWhile (\<lambda>c. c \<noteq> CHR ''/'') (rev s))"

definition path_join :: "string \<Rightarrow> string \<Rightarrow> string" where
  \<comment> \<open>\<open>path.join(dir, seg)\<close> for a normalised \<open>dir\<close> that does not end in a slash and a
     single segment \<open>seg\<close> other than \<open>.\<close> and \<open>..\<close>: there is nothing to normalise\<close>
  "path_join dir seg = dir @ ''/'' @ seg"

section \<open>The file system\<close>

text \<open>
  A snapshot of the file system maps a path to what is there: a file with its modification
  time in milliseconds and its content (\<open>None\<close> when it cannot be read), or a directory
  with its entries. The modification time is a JavaScript number; the code only compares
  two of them and takes the sign of a difference, which agree with the reals.
\<close>

datatype fs_error = ENOENT | ENOTDIR | EISDIR | EACCES

datatype node = File real "string option" | Dir real "string list"

type_synonym filesystem = "string \<Rightarrow> node option"

fun mtimeMs :: "node \<Rightarrow> real" where
  "mtimeMs (File t c) = t"
| "mtimeMs (Dir t es) = t"

definition existsSync :: "filesystem \<Rightarrow> string \<Rightarrow> bool" where
  "existsSync fs p = (fs p \<noteq> None)"

definition readdirSync :: "filesystem \<Rightarrow> string \<Rightarrow> fs_error + string list" where
  "readdirSync fs p =
     (case fs p of
        None \<Rightarrow> Inl ENOENT
      | Some (File t c) \<Rightarrow> Inl ENOTDIR
      | Some (Dir t es) \<Rightarrow> Inr es)"

definition readFileSync :: "filesystem \<Rightarrow> string \<Rightarrow> fs_error + string" where
  "readFileSync fs p =
     (case fs p of
        None \<Rightarrow> Inl ENOENT
      | Some (Dir t es) \<Rightarrow> Inl EISDIR
      | Some (File t None) \<Rightarrow> Inl EACCES
      | Some (File t (Some c)) \<Rightarrow> Inr c)"

definition mtimeOrZero :: "filesystem \<Rightarrow> string \<Rightarrow> real" where
  \<comment> \<open>\<open>fs.existsSync(p) ? fs.statSync(p).mtimeMs : 0\<close>; on one snapshot \<open>statSync\<close>
     succeeds exactly where \<open>existsSync\<close> holds\<close>
  "mtimeOrZero fs p = (case fs p of None \<Rightarrow> 0 | Some n \<Rightarrow> mtimeMs n)"

definition readTextFile :: "filesystem \<Rightarrow> string \<Rightarrow> string" where
  "readTextFile fs filePath =
     (if \<not> existsSync fs filePath then []
      else case readFileSync fs filePath of
             Inr content \<Rightarrow> trim content
           | Inl err \<Rightarrow> [])"

section \<open>File matching functions\<close>

definition IMAGE_EXTENSIONS :: "string list" where
  "IMAGE_EXTENSIONS = [''.jpg'', ''.jpeg'', ''.png'', ''.gif'', ''.webp'']"

definition AUDIO_EXTENSIONS :: "string list" where
  "AUDIO_EXTENSIONS = [''.wav'']"

definition UPLOADS :: "string \<Rightarrow> string" where
  "UPLOADS cwd = path_join cwd ''uploads''"

definition OUTPUTS :: "string \<Rightarrow> string" where
  "OUTPUTS cwd = path_join cwd ''outputs''"

definition TEXTS :: "string \<Rightarrow> string" where
  "TEXTS cwd = path_join cwd ''texts''"

definition getFilesByExtension :: "filesystem \<Rightarrow> string \<Rightarrow> string list \<Rightarrow> fs_error + string list" where
  "getFilesByExtension fs dirPath extensions =
     (if \<not> existsSync fs dirPath then Inr []
      else case readdirSync fs dirPath of
             Inl err \<Rightarrow> Inl err
           | Inr entries \<Rightarrow>
               Inr (filter (\<lambda>file. toLowerCase (path_extname file) \<in> set extensions) entries))"

text \<open>
  A JavaScript \<open>Map\<close> keeps its keys in insertion order, and \<open>set\<close> on a key that is
  present replaces the value where it stands: an association list with distinct keys.
\<close>

type_synonym jsmap = "(string \<times> string) list"

definition Map_get :: "jsmap \<Rightarrow> string \<Rightarrow> string option" where
  "Map_get m k = map_of m k"

fun Map_set :: "jsmap \<Rightarrow> string \<Rightarrow> string \<Rightarrow> jsmap" where
  "Map_set [] k v = [(k, v)]"
| "Map_set (p # ps) k v = (if fst p = k then (k, v) # ps else p # Map_set ps k v)"

definition Map_keys :: "jsmap \<Rightarrow> string list" where
  "Map_keys m = map fst m"

definition fileMapStep :: "filesystem \<Rightarrow> (string \<Rightarrow> string) \<Rightarrow> string \<Rightarrow> string \<Rightarrow> jsmap \<Rightarrow> jsmap" where
  \<comment> \<open>the body of \<open>files.forEach\<close>; \<open>map.has\<close> followed by \<open>map.get\<close> is one lookup\<close>
  "fileMapStep fs getBaseNameFn dirPath file m =
     (let baseName = getBaseNameFn file
      in case Map_get m baseName of
           None \<Rightarrow> Map_set m baseName file
         | Some existingFile \<Rightarrow>
             (let existingPath = path_join dirPath existingFile;
                  newPath = path_join dirPath file;
                  existingMtime = mtimeOrZero fs existingPath;
                  newMtime = mtimeOrZero fs newPath
              in if newMtime > existingMtime then Map_set m baseName file else m))"

definition createFileMap :: "filesystem \<Rightarrow> string list \<Rightarrow> (string \<Rightarrow> string) \<Rightarrow> string \<Rightarrow> jsmap" where
  "createFileMap fs files getBaseNameFn dirPath = fold (fileMapStep fs getBaseNameFn dirPath) files []"

record MatchedFile =
  imageUrl :: string
  audioUrl :: string
  name :: string
  prompt :: "string option"

definition Set_add :: "string \<Rightarrow> string list \<Rightarrow> string list" where
  \<comment> \<open>a JavaScript \<open>Set\<close> keeps the first insertion of each value, in order\<close>
  "Set_add x s = (if x \<in> set s then s else s @ [x])"

definition Set_from :: "string list \<Rightarrow> string list" where
  "Set_from xs = fold Set_add xs []"

definition or_undefined :: "string \<Rightarrow> string option" where
  \<comment> \<open>\<open>prompt || undefined\<close>: the empty string is falsy\<close>
  "or_undefined s = (if s = [] then None else Some s)"

definition matchStep :: "filesystem \<Rightarrow> string \<Rightarrow> jsmap \<Rightarrow> jsmap \<Rightarrow> string \<Rightarrow> MatchedFile list \<Rightarrow> MatchedFile list" where
  \<comment> \<open>the body of \<open>allBaseNames.forEach\<close>; \<open>imageFile && audioFile\<close> holds when both are
     defined and neither is the empty string\<close>
  "matchStep fs cwd imageMap audioMap baseName matchedFiles =
     (case (Map_get imageMap baseName, Map_get audioMap baseName) of
        (Some imageFile, Some audioFile) \<Rightarrow>
          if imageFile \<noteq> [] \<and> audioFile \<noteq> [] then
            (let textFilePath = path_join (TEXTS cwd) (baseName @ ''.txt'');
                 prompt = readTextFile fs textFilePath
             in matchedFiles @
                  [\<lparr>imageUrl = ''/uploads/'' @ imageFile, audioUrl = ''/outputs/'' @ audioFile,
                    name = baseName, prompt = or_undefined prompt\<rparr>])
          else matchedFiles
      | _ \<Rightarrow> matchedFiles)"

definition imageMtime :: "filesystem \<Rightarrow> string \<Rightarrow> MatchedFile \<Rightarrow> real" where
  \<comment> \<open>\<open>mtimeA\<close> of the comparator: the time of the file the record's image URL ends in\<close>
  "imageMtime fs cwd a = mtimeOrZero fs (path_join (UPLOADS cwd) (split_pop (imageUrl a)))"

definition compareByMtime :: "filesystem \<Rightarrow> string \<Rightarrow> MatchedFile \<Rightarrow> MatchedFile \<Rightarrow> real" where
  "compareByMtime fs cwd a b = imageMtime fs cwd b - imageMtime fs cwd a"

text \<open>
  \<open>Array.prototype.sort\<close> is a stable sort. The comparator above is consistent (it compares
  one key per record), and for such a comparator every stable sort returns the same
  array; the model is insertion sort.
\<close>

fun insert_sorted :: "('a \<Rightarrow> 'a \<Rightarrow> real) \<Rightarrow> 'a \<Rightarrow> 'a list \<Rightarrow> 'a list" where
  "insert_sorted cmp x [] = [x]"
| "insert_sorted cmp x (y # ys) =
     (if cmp x y \<le> 0 then x # y # ys else y # insert_sorted cmp x ys)"

definition Array_sort :: "('a \<Rightarrow> 'a \<Rightarrow> real) \<Rightarrow> 'a list \<Rightarrow> 'a list" where
  "Array_sort cmp xs = foldr (insert_sorted cmp) xs []"

definition matchFiles :: "filesystem \<Rightarrow> string \<Rightarrow> fs_error + MatchedFile list" where
  "matchFiles fs cwd =
     (case getFilesByExtension fs (UPLOADS cwd) IMAGE_EXTENSIONS of
        Inl err \<Rightarrow> Inl err
      | Inr uploadFiles \<Rightarrow>
          (case getFilesByExtension fs (OUTPUTS cwd) AUDIO_EXTENSIONS of
             Inl err \<Rightarrow> Inl err
           | Inr outputFiles \<Rightarrow>
               (let imageMap = createFileMap fs uploadFiles getBaseName (UPLOADS cwd);
                    audioMap = createFileMap fs outputFiles path_parse_name (OUTPUTS cwd);
                    allBaseNames = Set_from (Map_keys imageMap @ Map_keys audioMap);
                    matchedFiles = fold (matchStep fs cwd imageMap audioMap) allBaseNames []
                in Inr (Array_sort (compareByMtime fs cwd) matchedFiles))))"

section \<open>The names \<open>POST /api/generate\<close> writes\<close>

record generated =
  storedFilename :: string
  outputFilename :: string
  outputPath :: string
  textFilePath :: string

definition generate_names :: "string \<Rightarrow> string \<Rightarrow> generated" where
  \<comment> \<open>the file names of a request that succeeds, from \<open>req.file.originalname\<close>: the name
     multer stores the upload under, and the audio and prompt files the handler writes\<close>
  "generate_names cwd originalname =
     (let imageBaseName = path_parse_name originalname;
          outputFilename = imageBaseName @ ''.wav''
      in \<lparr>storedFilename = path_parse_name originalname @ path_extname originalname,
          outputFilename = outputFilename,
          outputPath = path_join (OUTPUTS cwd) outputFilename,
          textFilePath = path_join (TEXTS cwd) (imageBaseName @ ''.txt'')\<rparr>)"

section \<open>The resolver as the specification words it\<close>

text \<open>
  The specification's algorithm, for comparison with \<open>getBaseName\<close>: strip the extension;
  if the stem contains a dash and what follows the last dash is a non-empty run of decimal
  digits, strip that trailing segment; otherwise return the stem.
\<close>

definition after_last_dash :: "string \<Rightarrow> string" where
  \<comment> \<open>what follows the last dash of a stem\<close>
  "after_last_dash stem = rev (takeWhile (\<lambda>c. c \<noteq> CHR ''-'') (rev stem))"

definition before_last_dash :: "string \<Rightarrow> string" where
  \<comment> \<open>the stem without its last dash and what follows it\<close>
  "before_last_dash stem = rev (tl (dropWhile (\<lambda>c. c \<noteq> CHR ''-'') (rev stem)))"

definition spec_resolve :: "string \<Rightarrow> string" where
  "spec_resolve filename =
     (let stem = path_parse_name filename
      in if CHR ''-'' \<in> set stem \<and> test_digits (after_last_dash stem) then before_last_dash stem
         else stem)"

section \<open>Stating the builder's properties\<close>

definition fileMtime :: "filesystem \<Rightarrow> string \<Rightarrow> string \<Rightarrow> real" where
  \<comment> \<open>the time \<open>createFileMap\<close> compares a file of the directory by: zero when it is missing\<close>
  "fileMtime fs dirPath file = mtimeOrZero fs (path_join dirPath file)"

definition entries_ok :: "filesystem \<Rightarrow> (string \<Rightarrow> string) \<Rightarrow> string \<Rightarrow> string list \<Rightarrow> jsmap \<Rightarrow> bool" where
  \<comment> \<open>the loop invariant of \<open>createFileMap\<close> after the files \<open>files\<close>: every name seen has an
     entry, and an entry is a file seen, of that name, that no file seen of that name is
     newer than\<close>
  "entries_ok fs fn dir files m =
     ((\<forall>g \<in> set files. Map_get m (fn g) \<noteq> None) \<and>
      (\<forall>k r. Map_get m k = Some r \<longrightarrow>
         r \<in> set files \<and> fn r = k \<and>
         (\<forall>g \<in> set files. fn g = k \<longrightarrow> fileMtime fs dir g \<le> fileMtime fs dir r)))"

text \<open>Two uploads of one LogicalName; \<open>sunset-3.jpg\<close> is on neither snapshot.\<close>

definition fs_dup :: filesystem where
  "fs_dup p =
     (if p = ''/app/uploads/sunset-1.jpg'' then Some (File 100 (Some ''first''))
      else if p = ''/app/uploads/sunset-2.jpg'' then Some (File 200 (Some ''second''))
      else None)"

definition fs_dup_later :: filesystem where
  \<comment> \<open>the same files and times; a content and the prompt directory differ\<close>
  "fs_dup_later p =
     (if p = ''/app/uploads/sunset-1.jpg'' then Some (File 100 None)
      else if p = ''/app/uploads/sunset-2.jpg'' then Some (File 200 (Some ''second''))
      else if p = ''/app/texts/sunset.txt'' then Some (File 300 (Some ''calm piano''))
      else None)"

section \<open>The scanner as the specification words it\<close>

text \<open>
  The specification's contract, for comparison with \<open>getFilesByExtension\<close>: the entries whose
  extension, with its leading dot and compared without regard to case, is in the accepted set.
\<close>

definition spec_matching_files :: "string list \<Rightarrow> string list \<Rightarrow> string list" where
  "spec_matching_files extensions entries =
     filter (\<lambda>file. list_ex (\<lambda>e. toLowerCase e = toLowerCase (path_extname file)) extensions)
       entries"

definition fs_upper :: filesystem where
  \<comment> \<open>an uploads directory with one entry, its extension in upper case\<close>
  "fs_upper p = (if p = ''/app/uploads'' then Some (Dir 0 [''a.JPG'']) else None)"

definition fs_listing :: filesystem where
  \<comment> \<open>an uploads directory with images, a text file and a dot file; no outputs directory\<close>
  "fs_listing p =
     (if p = ''/app/uploads''
      then Some (Dir 0 [''a.jpg'', ''b.PNG'', ''c-17.gif'', ''notes.txt'', ''.jpg''])
      else None)"

section \<open>Stating the matcher's properties\<close>

definition bothTruthy :: "jsmap \<Rightarrow> jsmap \<Rightarrow> string \<Rightarrow> bool" where
  \<comment> \<open>the condition \<open>imageFile && audioFile\<close> of \<open>matchStep\<close>\<close>
  "bothTruthy imageMap audioMap baseName =
     (case (Map_get imageMap baseName, Map_get audioMap baseName) of
        (Some imageFile, Some audioFile) \<Rightarrow> imageFile \<noteq> [] \<and> audioFile \<noteq> []
      | _ \<Rightarrow> False)"

definition matchedList :: "filesystem \<Rightarrow> string \<Rightarrow> jsmap \<Rightarrow> jsmap \<Rightarrow> string list \<Rightarrow> MatchedFile list" where
  \<comment> \<open>what the \<open>forEach\<close> of \<open>matchFiles\<close> pushes, name by name\<close>
  "matchedList fs cwd imageMap audioMap names =
     concat (map (\<lambda>k. matchStep fs cwd imageMap audioMap k []) names)"

definition imageMapOf :: "filesystem \<Rightarrow> string \<Rightarrow> string list \<Rightarrow> jsmap" where
  \<comment> \<open>\<open>imageMap\<close> of \<open>matchFiles\<close>, from the scanned uploads\<close>
  "imageMapOf fs cwd uploadFiles = createFileMap fs uploadFiles getBaseName (UPLOADS cwd)"

definition audioMapOf :: "filesystem \<Rightarrow> string \<Rightarrow> string list \<Rightarrow> jsmap" where
  \<comment> \<open>\<open>audioMap\<close> of \<open>matchFiles\<close>, from the scanned outputs\<close>
  "audioMapOf fs cwd outputFiles = createFileMap fs outputFiles path_parse_name (OUTPUTS cwd)"

definition promptPath :: "string \<Rightarrow> string \<Rightarrow> string" where
  \<comment> \<open>\<open>textFilePath\<close> of \<open>matchStep\<close>\<close>
  "promptPath cwd baseName = path_join (TEXTS cwd) (baseName @ ''.txt'')"

text \<open>
  Four images with audio (\<open>d.webp\<close> is listed but cannot be found, so its time is zero),
  one image without audio and one audio without image. The prompt of \<open>a\<close> is text, that
  of \<open>b\<close> is white space, that of \<open>c\<close> is missing and that of \<open>d\<close> cannot be read.
\<close>

definition fs_three :: filesystem where
  "fs_three p =
     (if p = ''/app/uploads''
      then Some (Dir 0 [''a.jpg'', ''b.png'', ''c.gif'', ''d.webp'', ''lonely.jpg''])
      else if p = ''/app/outputs''
      then Some (Dir 0 [''a.wav'', ''b.wav'', ''c.wav'', ''d.wav'', ''orphan.wav''])
      else if p = ''/app/uploads/a.jpg'' then Some (File 300 None)
      else if p = ''/app/uploads/b.png'' then Some (File 100 None)
      else if p = ''/app/uploads/c.gif'' then Some (File 200 None)
      else if p = ''/app/uploads/lonely.jpg'' then Some (File 400 None)
      else if p = ''/app/texts/a.txt'' then Some (File 5 (Some ''calm piano''))
      else if p = ''/app/texts/b.txt'' then Some (File 5 (Some [CHR '' '', CHR 0x09, CHR 0x0A]))
      else if p = ''/app/texts/d.txt'' then Some (File 5 None)
      else None)"

definition result_three :: "MatchedFile list" where
  \<comment> \<open>what \<open>matchFiles\<close> returns on \<open>fs_three\<close>\<close>
  "result_three =
     [\<lparr>imageUrl = ''/uploads/a.jpg'', audioUrl = ''/outputs/a.wav'', name = ''a'',
        prompt = Some ''calm piano''\<rparr>,
      \<lparr>imageUrl = ''/uploads/c.gif'', audioUrl = ''/outputs/c.wav'', name = ''c'', prompt = None\<rparr>,
      \<lparr>imageUrl = ''/uploads/b.png'', audioUrl = ''/outputs/b.wav'', name = ''b'', prompt = None\<rparr>,
      \<lparr>imageUrl = ''/uploads/d.webp'', audioUrl = ''/outputs/d.wav'', name = ''d'', prompt = None\<rparr>]"

definition fs_order :: filesystem where
  \<comment> \<open>three matched images, listed with the times 300, 100, 200\<close>
  "fs_order p =
     (if p = ''/app/uploads'' then Some (Dir 0 [''x.jpg'', ''y.jpg'', ''z.jpg''])
      else if p = ''/app/outputs'' then Some (Dir 0 [''z.wav'', ''y.wav'', ''x.wav''])
      else if p = ''/app/uploads/x.jpg'' then Some (File 300 None)
      else if p = ''/app/uploads/y.jpg'' then Some (File 100 None)
      else if p = ''/app/uploads/z.jpg'' then Some (File 200 None)
      else None)"



section \<open>A snapshot after one successful generation\<close>

definition fs_generated :: filesystem where
  \<comment> \<open>the three directories after the upload \<open>sunset-1700000000.jpg\<close> was stored and its audio
     and prompt files were written under the names of \<open>generate_names\<close>\<close>
  "fs_generated p =
     (if p = ''/app/uploads'' then Some (Dir 0 [''sunset-1700000000.jpg''])
      else if p = ''/app/outputs'' then Some (Dir 0 [''sunset-1700000000.wav''])
      else if p = ''/app/texts'' then Some (Dir 0 [''sunset-1700000000.txt''])
      else if p = ''/app/uploads/sunset-1700000000.jpg'' then Some (File 100 None)
      else if p = ''/app/outputs/sunset-1700000000.wav'' then Some (File 200 None)
      else if p = ''/app/texts/sunset-1700000000.txt'' then Some (File 300 (Some ''calm piano''))
      else None)"

section \<open>Properties of the resolver\<close>

lemma lastIndexOf_split:
  assumes "s = pre @ c # suf" and "c \<notin> set suf"
  shows "lastIndexOf s c = int (length pre)"
    and "takeWhile (\<lambda>x. x \<noteq> c) (rev s) = rev suf"
    and "dropWhile (\<lambda>x. x \<noteq> c) (rev s) = c # rev pre"
proof -
  have r: "rev s = rev suf @ c # rev pre"
    using assms(1) by simp
  have n: "\<And>x. x \<in> set (rev suf) \<Longrightarrow> x \<noteq> c"
    using assms(2) by auto
  have "takeWhile (\<lambda>x. x \<noteq> c) (rev suf @ c # rev pre) =
          rev suf @ takeWhile (\<lambda>x. x \<noteq> c) (c # rev pre)"
    by (rule takeWhile_append2) (rule n)
  then show t: "takeWhile (\<lambda>x. x \<noteq> c) (rev s) = rev suf"
    unfolding r by simp
  have "dropWhile (\<lambda>x. x \<noteq> c) (rev suf @ c # rev pre) =
          dropWhile (\<lambda>x. x \<noteq> c) (c # rev pre)"
    by (rule dropWhile_append2) (rule n)
  then show "dropWhile (\<lambda>x. x \<noteq> c) (rev s) = c # rev pre"
    unfolding r by simp
  show "lastIndexOf s c = int (length pre)"
    unfolding lastIndexOf_def t using assms(1) by simp
qed

lemma lastIndexOf_absent: "c \<notin> set s \<Longrightarrow> lastIndexOf s c = - 1"
  by (simp add: lastIndexOf_def)

lemma lastIndexOf_pos: "(lastIndexOf s c > 0) = (c \<in> set (tl s))"
proof (cases "c \<in> set s")
  case False
  then have "c \<notin> set (tl s)"
    by (cases s) auto
  with False show ?thesis
    by (simp add: lastIndexOf_absent)
next
  case True
  then obtain pre suf where s: "s = pre @ c # suf" and suf: "c \<notin> set suf"
    using split_list_last by fastforce
  have idx: "lastIndexOf s c = int (length pre)"
    using lastIndexOf_split(1) [OF s suf] .
  show ?thesis
  proof (cases pre)
    case Nil
    with s suf idx show ?thesis by simp
  next
    case (Cons a as)
    with s idx show ?thesis by simp
  qed
qed

lemma getBaseName_split:
  assumes "path_parse_name f = pre @ CHR ''-'' # suf" and "CHR ''-'' \<notin> set suf"
  shows "getBaseName f =
           (if pre \<noteq> [] \<and> test_digits suf then pre else path_parse_name f)"
proof -
  have idx: "lastIndexOf (path_parse_name f) CHR ''-'' = int (length pre)"
    using lastIndexOf_split(1) [OF assms] .
  have nxt: "nat (int (length pre) + 1) = Suc (length pre)"
    by simp
  show ?thesis
    unfolding getBaseName_def Let_def idx substring_from_def substring_to_def nxt
    by (simp add: assms(1))
qed

lemma getBaseName_no_dash:
  assumes "CHR ''-'' \<notin> set (path_parse_name f)"
  shows "getBaseName f = path_parse_name f"
  unfolding getBaseName_def Let_def lastIndexOf_absent [OF assms] by simp

lemma dash_parts:
  assumes "s = pre @ CHR ''-'' # suf" and "CHR ''-'' \<notin> set suf"
  shows "after_last_dash s = suf" and "before_last_dash s = pre"
  using lastIndexOf_split(2,3) [OF assms]
  by (simp_all add: after_last_dash_def before_last_dash_def)

text \<open>
  Claim C1, as amended. \<open>getBaseName\<close> takes the stem \<open>path.parse(filename).name\<close>; when the
  stem has a dash at a strictly positive index and what follows the last dash is a non-empty
  run of decimal digits, it returns the stem up to that last dash; otherwise it returns the
  stem unchanged. The four examples of the specification hold.
\<close>

theorem getBaseName_resolves:
  "getBaseName f =
     (let stem = path_parse_name f
      in if CHR ''-'' \<in> set (tl stem) \<and> test_digits (after_last_dash stem)
         then before_last_dash stem else stem) \<and>
   getBaseName ''sunset-1700000000.jpg'' = ''sunset'' \<and>
   getBaseName ''sunset.jpg'' = ''sunset'' \<and>
   getBaseName ''a-b-12.png'' = ''a-b'' \<and>
   getBaseName ''a-b.png'' = ''a-b''"
proof -
  have general: "getBaseName f =
     (let stem = path_parse_name f
      in if CHR ''-'' \<in> set (tl stem) \<and> test_digits (after_last_dash stem)
         then before_last_dash stem else stem)"
  proof (cases "CHR ''-'' \<in> set (path_parse_name f)")
    case False
    then have "CHR ''-'' \<notin> set (tl (path_parse_name f))"
      by (cases "path_parse_name f") auto
    with False show ?thesis
      by (simp add: getBaseName_no_dash)
  next
    case True
    then obtain pre suf where s: "path_parse_name f = pre @ CHR ''-'' # suf"
      and suf: "CHR ''-'' \<notin> set suf"
      using split_list_last by fastforce
    have pos: "(CHR ''-'' \<in> set (tl (path_parse_name f))) = (pre \<noteq> [])"
      using lastIndexOf_pos [of "path_parse_name f" "CHR ''-''"] lastIndexOf_split(1) [OF s suf]
      by simp
    show ?thesis
      unfolding Let_def pos dash_parts [OF s suf] getBaseName_split [OF s suf] by simp
  qed
  have e1: "getBaseName ''sunset-1700000000.jpg'' = ''sunset''" by code_simp
  have e2: "getBaseName ''sunset.jpg'' = ''sunset''" by code_simp
  have e3: "getBaseName ''a-b-12.png'' = ''a-b''" by code_simp
  have e4: "getBaseName ''a-b.png'' = ''a-b''" by code_simp
  from general e1 e2 e3 e4 show ?thesis by blast
qed

text \<open>
  The specification's wording has no condition on where the dash stands: on the stem
  \<open>-123\<close> it strips everything, while the code keeps the stem.
\<close>

theorem spec_resolve_counterexample:
  "getBaseName ''-123.jpg'' = ''-123'' \<and> spec_resolve ''-123.jpg'' = []"
  by code_simp

text \<open>
  Claim C9. When the only dash of the stem is its first character, \<open>getBaseName\<close> returns
  the stem unchanged; it strips only when the last dash stands at a strictly positive index;
  and a non-empty stem always gives a non-empty result.
\<close>

theorem getBaseName_leading_dash:
  "(path_parse_name f = CHR ''-'' # rest \<and> CHR ''-'' \<notin> set rest \<longrightarrow>
      getBaseName f = path_parse_name f) \<and>
   (getBaseName f \<noteq> path_parse_name f \<longrightarrow> 0 < lastIndexOf (path_parse_name f) CHR ''-'') \<and>
   (path_parse_name f \<noteq> [] \<longrightarrow> getBaseName f \<noteq> [])"
proof (intro conjI impI)
  assume a: "path_parse_name f = CHR ''-'' # rest \<and> CHR ''-'' \<notin> set rest"
  then have "path_parse_name f = [] @ CHR ''-'' # rest" and "CHR ''-'' \<notin> set rest"
    by simp_all
  from getBaseName_split [OF this] show "getBaseName f = path_parse_name f"
    by simp
next
  assume "getBaseName f \<noteq> path_parse_name f"
  then show "0 < lastIndexOf (path_parse_name f) CHR ''-''"
    by (auto simp: getBaseName_def Let_def split: if_splits)
next
  assume ne: "path_parse_name f \<noteq> []"
  show "getBaseName f \<noteq> []"
  proof (cases "CHR ''-'' \<in> set (path_parse_name f)")
    case False
    with ne show ?thesis by (simp add: getBaseName_no_dash)
  next
    case True
    then obtain pre suf where s: "path_parse_name f = pre @ CHR ''-'' # suf"
      and suf: "CHR ''-'' \<notin> set suf"
      using split_list_last by fastforce
    show ?thesis
      using ne by (simp add: getBaseName_split [OF s suf])
  qed
qed

theorem getBaseName_leading_dash_witness:
  "path_parse_name ''-123.jpg'' = CHR ''-'' # ''123'' \<and> CHR ''-'' \<notin> set ''123'' \<and>
   getBaseName ''-123.jpg'' = path_parse_name ''-123.jpg'' \<and>
   path_parse_name ''-123.jpg'' \<noteq> [] \<and> getBaseName ''-123.jpg'' \<noteq> [] \<and>
   getBaseName ''a-12.jpg'' \<noteq> path_parse_name ''a-12.jpg'' \<and>
   0 < lastIndexOf (path_parse_name ''a-12.jpg'') CHR ''-''"
proof -
  have p: "path_parse_name ''-123.jpg'' = CHR ''-'' # ''123''"
    by code_simp
  have d: "CHR ''-'' \<notin> set ''123''"
    by simp
  have s: "getBaseName ''a-12.jpg'' \<noteq> path_parse_name ''a-12.jpg''"
    by code_simp
  show ?thesis
    using getBaseName_leading_dash [of "''-123.jpg''" "''123''"]
      getBaseName_leading_dash [of "''a-12.jpg''" "''12''"] p d s
    by simp
qed

section \<open>Properties of the file map builder\<close>

lemma Map_get_Map_set:
  "Map_get (Map_set m k v) k' = (if k' = k then Some v else Map_get m k')"
  by (induction m) (auto simp: Map_get_def)

lemma fileMapStep_new:
  assumes "Map_get m (fn f) = None"
  shows "fileMapStep fs fn dir f m = Map_set m (fn f) f"
  using assms by (simp add: fileMapStep_def)

lemma fileMapStep_present:
  assumes "Map_get m (fn f) = Some existing"
  shows "fileMapStep fs fn dir f m =
           (if fileMtime fs dir f > fileMtime fs dir existing then Map_set m (fn f) f
            else m)"
  using assms by (simp add: fileMapStep_def fileMtime_def)

lemma createFileMap_snoc:
  "createFileMap fs (files @ [f]) fn dir =
     fileMapStep fs fn dir f (createFileMap fs files fn dir)"
  by (simp add: createFileMap_def)

lemma entries_ok_step:
  assumes ok: "entries_ok fs fn dir files m"
  shows "entries_ok fs fn dir (files @ [f]) (fileMapStep fs fn dir f m)"
proof (cases "Map_get m (fn f)")
  case None
  have absent: "\<And>g. g \<in> set files \<Longrightarrow> fn g \<noteq> fn f"
    using ok None unfolding entries_ok_def by metis
  show ?thesis
    unfolding fileMapStep_new [where fn = fn and f = f, OF None] entries_ok_def
    using ok absent unfolding entries_ok_def
    by (auto simp: Map_get_Map_set)
next
  case (Some existing)
  have ex: "existing \<in> set files" "fn existing = fn f"
    and mx: "\<And>g. g \<in> set files \<Longrightarrow> fn g = fn f \<Longrightarrow>
               fileMtime fs dir g \<le> fileMtime fs dir existing"
    using ok Some unfolding entries_ok_def by blast+
  show ?thesis
  proof (cases "fileMtime fs dir f > fileMtime fs dir existing")
    case True
    have below: "\<And>g. g \<in> set files \<Longrightarrow> fn g = fn f \<Longrightarrow>
               fileMtime fs dir g \<le> fileMtime fs dir f"
      using mx True by fastforce
    show ?thesis
      unfolding fileMapStep_present [where fn = fn and f = f, OF Some] entries_ok_def
      using ok True below unfolding entries_ok_def
      by (auto simp: Map_get_Map_set)
  next
    case False
    then have le: "fileMtime fs dir f \<le> fileMtime fs dir existing"
      by simp
    have same: "fileMapStep fs fn dir f m = m"
      using False by (simp add: fileMapStep_present [where fn = fn and f = f, OF Some])
    show ?thesis
      unfolding same entries_ok_def
      using ok Some le unfolding entries_ok_def
      by auto
  qed
qed

lemma entries_ok_createFileMap: "entries_ok fs fn dir files (createFileMap fs files fn dir)"
proof (induction files rule: rev_induct)
  case Nil
  show ?case by (simp add: entries_ok_def createFileMap_def Map_get_def)
next
  case (snoc x xs)
  then show ?case
    unfolding createFileMap_snoc by (rule entries_ok_step)
qed

text \<open>
  Claim C2. When two files of the list have the same LogicalName \<open>k\<close>, no other file of the
  list has it, and the first is older than the second, \<open>createFileMap\<close> maps \<open>k\<close> to the
  second, wherever the two stand in the list. In general the entry of a name is a file of
  the list with that name that no other such file is newer than. A candidate that ties
  with the entry or is older leaves the map as it is, and a missing file is compared with
  modification time zero.
\<close>

theorem createFileMap_keeps_newest:
  "(f1 \<in> set files \<and> f2 \<in> set files \<and> fn f1 = k \<and> fn f2 = k \<and>
      (\<forall>g \<in> set files. fn g = k \<longrightarrow> g = f1 \<or> g = f2) \<and>
      fileMtime fs dir f1 < fileMtime fs dir f2 \<longrightarrow>
      Map_get (createFileMap fs files fn dir) k = Some f2) \<and>
   (Map_get (createFileMap fs files fn dir) k = Some r \<longrightarrow>
      r \<in> set files \<and> fn r = k \<and>
      (\<forall>g \<in> set files. fn g = k \<longrightarrow> fileMtime fs dir g \<le> fileMtime fs dir r)) \<and>
   (Map_get (createFileMap fs files fn dir) (fn f) = Some existing \<and>
      fileMtime fs dir f \<le> fileMtime fs dir existing \<longrightarrow>
      createFileMap fs (files @ [f]) fn dir = createFileMap fs files fn dir) \<and>
   (\<not> existsSync fs (path_join dir f) \<longrightarrow> fileMtime fs dir f = 0)"
proof -
  have ok: "entries_ok fs fn dir files (createFileMap fs files fn dir)"
    by (rule entries_ok_createFileMap)
  have entry: "r \<in> set files \<and> fn r = k \<and>
      (\<forall>g \<in> set files. fn g = k \<longrightarrow> fileMtime fs dir g \<le> fileMtime fs dir r)"
    if "Map_get (createFileMap fs files fn dir) k = Some r" for r
    using ok that unfolding entries_ok_def by blast
  have two: "Map_get (createFileMap fs files fn dir) k = Some f2"
    if a: "f1 \<in> set files \<and> f2 \<in> set files \<and> fn f1 = k \<and> fn f2 = k \<and>
      (\<forall>g \<in> set files. fn g = k \<longrightarrow> g = f1 \<or> g = f2) \<and>
      fileMtime fs dir f1 < fileMtime fs dir f2"
  proof -
    from a ok obtain w where w: "Map_get (createFileMap fs files fn dir) k = Some w"
      unfolding entries_ok_def by fastforce
    from entry [OF w] a have "w \<in> set files" and "fn w = k"
      and "fileMtime fs dir f2 \<le> fileMtime fs dir w"
      by blast+
    with a have "w = f2"
      by fastforce
    with w show ?thesis
      by simp
  qed
  have kept: "createFileMap fs (files @ [f]) fn dir = createFileMap fs files fn dir"
    if a: "Map_get (createFileMap fs files fn dir) (fn f) = Some existing \<and>
      fileMtime fs dir f \<le> fileMtime fs dir existing"
  proof -
    from a have g: "Map_get (createFileMap fs files fn dir) (fn f) = Some existing"
      by simp
    show ?thesis
      unfolding createFileMap_snoc fileMapStep_present [where fn = fn and f = f, OF g]
      using a by simp
  qed
  have missing: "fileMtime fs dir f = 0" if "\<not> existsSync fs (path_join dir f)"
    using that by (simp add: existsSync_def fileMtime_def mtimeOrZero_def)
  from two entry kept missing show ?thesis
    by blast
qed

theorem createFileMap_keeps_newest_witness:
  "Map_get (createFileMap fs_dup [''sunset-2.jpg'', ''sunset-1.jpg''] getBaseName ''/app/uploads'')
      ''sunset'' = Some ''sunset-2.jpg'' \<and>
   Map_get (createFileMap fs_dup [''sunset-1.jpg'', ''sunset-2.jpg''] getBaseName ''/app/uploads'')
      ''sunset'' = Some ''sunset-2.jpg'' \<and>
   createFileMap fs_dup ([''sunset-2.jpg'', ''sunset-1.jpg''] @ [''sunset-3.jpg'']) getBaseName
      ''/app/uploads'' =
   createFileMap fs_dup [''sunset-2.jpg'', ''sunset-1.jpg''] getBaseName ''/app/uploads'' \<and>
   fileMtime fs_dup ''/app/uploads'' ''sunset-3.jpg'' = 0"
proof -
  have n1: "getBaseName ''sunset-1.jpg'' = ''sunset''" by code_simp
  have n2: "getBaseName ''sunset-2.jpg'' = ''sunset''" by code_simp
  have n3: "getBaseName ''sunset-3.jpg'' = ''sunset''" by code_simp
  have t1: "fileMtime fs_dup ''/app/uploads'' ''sunset-1.jpg'' = 100"
    by (simp add: fileMtime_def mtimeOrZero_def path_join_def fs_dup_def)
  have t2: "fileMtime fs_dup ''/app/uploads'' ''sunset-2.jpg'' = 200"
    by (simp add: fileMtime_def mtimeOrZero_def path_join_def fs_dup_def)
  have t3: "fileMtime fs_dup ''/app/uploads'' ''sunset-3.jpg'' = 0"
    by (simp add: fileMtime_def mtimeOrZero_def path_join_def fs_dup_def)
  have e3: "\<not> existsSync fs_dup (path_join ''/app/uploads'' ''sunset-3.jpg'')"
    by (simp add: existsSync_def path_join_def fs_dup_def)
  note a = createFileMap_keeps_newest
    [of "''sunset-1.jpg''" "[''sunset-2.jpg'', ''sunset-1.jpg'']" "''sunset-2.jpg''" getBaseName
      "''sunset''" fs_dup "''/app/uploads''" "''sunset-2.jpg''" "''sunset-3.jpg''" "''sunset-2.jpg''"]
  note b = createFileMap_keeps_newest
    [of "''sunset-1.jpg''" "[''sunset-1.jpg'', ''sunset-2.jpg'']" "''sunset-2.jpg''" getBaseName
      "''sunset''" fs_dup "''/app/uploads''" "''sunset-2.jpg''" "''sunset-3.jpg''" "''sunset-2.jpg''"]
  have first: "Map_get (createFileMap fs_dup [''sunset-2.jpg'', ''sunset-1.jpg''] getBaseName
      ''/app/uploads'') ''sunset'' = Some ''sunset-2.jpg''"
    using a n1 n2 t1 t2 by simp
  have second: "Map_get (createFileMap fs_dup [''sunset-1.jpg'', ''sunset-2.jpg''] getBaseName
      ''/app/uploads'') ''sunset'' = Some ''sunset-2.jpg''"
    using b n1 n2 t1 t2 by simp
  have third: "createFileMap fs_dup ([''sunset-2.jpg'', ''sunset-1.jpg''] @ [''sunset-3.jpg''])
      getBaseName ''/app/uploads'' =
    createFileMap fs_dup [''sunset-2.jpg'', ''sunset-1.jpg''] getBaseName ''/app/uploads''"
    using a first n3 t2 t3 by simp
  from first second third t3 show ?thesis
    by simp
qed

text \<open>
  Claim C8. The map depends on the snapshot only through the file list and the modification
  times of the listed files: two builds from snapshots that agree on these give identical
  maps, whatever else differs between the snapshots.
\<close>

theorem createFileMap_snapshot:
  assumes same: "\<forall>f \<in> set files. fileMtime fs dir f = fileMtime fs' dir f"
  shows "createFileMap fs files fn dir = createFileMap fs' files fn dir"
  using same
proof (induction files rule: rev_induct)
  case Nil
  show ?case by (simp add: createFileMap_def)
next
  case (snoc x xs)
  then have ih: "createFileMap fs xs fn dir = createFileMap fs' xs fn dir"
    by simp
  show ?case
  proof (cases "Map_get (createFileMap fs' xs fn dir) (fn x)")
    case None
    show ?thesis
      unfolding createFileMap_snoc ih fileMapStep_new [where fn = fn and f = x, OF None] ..
  next
    case (Some existing)
    have "existing \<in> set xs"
      using entries_ok_createFileMap [of fs' fn dir xs] Some unfolding entries_ok_def by blast
    then have "fileMtime fs dir existing = fileMtime fs' dir existing"
      and "fileMtime fs dir x = fileMtime fs' dir x"
      using snoc.prems by simp_all
    then show ?thesis
      unfolding createFileMap_snoc ih fileMapStep_present [where fn = fn and f = x, OF Some]
      by simp
  qed
qed

theorem createFileMap_snapshot_witness:
  "createFileMap fs_dup [''sunset-1.jpg'', ''sunset-2.jpg'', ''sunset-3.jpg''] getBaseName
      ''/app/uploads'' =
   createFileMap fs_dup_later [''sunset-1.jpg'', ''sunset-2.jpg'', ''sunset-3.jpg''] getBaseName
      ''/app/uploads''"
proof -
  have "\<forall>f \<in> set [''sunset-1.jpg'', ''sunset-2.jpg'', ''sunset-3.jpg''].
          fileMtime fs_dup ''/app/uploads'' f = fileMtime fs_dup_later ''/app/uploads'' f"
    by (simp add: fileMtime_def mtimeOrZero_def path_join_def fs_dup_def fs_dup_later_def)
  then show ?thesis
    by (rule createFileMap_snapshot)
qed

section \<open>Properties of the directory scanner\<close>

lemma getFilesByExtension_absent:
  assumes "\<not> existsSync fs dirPath"
  shows "getFilesByExtension fs dirPath exts = Inr []"
  using assms by (simp add: getFilesByExtension_def)

lemma getFilesByExtension_listed:
  assumes "readdirSync fs dirPath = Inr entries"
  shows "getFilesByExtension fs dirPath exts =
           Inr (filter (\<lambda>f. toLowerCase (path_extname f) \<in> set exts) entries)"
proof -
  have "existsSync fs dirPath"
    using assms by (auto simp: readdirSync_def existsSync_def split: option.splits)
  with assms show ?thesis
    by (simp add: getFilesByExtension_def)
qed

lemma lower_case_accepts:
  assumes "\<forall>e \<in> set exts. toLowerCase e = e"
  shows "(toLowerCase x \<in> set exts) = list_ex (\<lambda>e. toLowerCase e = toLowerCase x) exts"
proof
  assume "toLowerCase x \<in> set exts"
  with assms have "toLowerCase (toLowerCase x) = toLowerCase x" and "toLowerCase x \<in> set exts"
    by simp_all
  then show "list_ex (\<lambda>e. toLowerCase e = toLowerCase x) exts"
    unfolding list_ex_iff by blast
next
  assume "list_ex (\<lambda>e. toLowerCase e = toLowerCase x) exts"
  then obtain e where "e \<in> set exts" and "toLowerCase e = toLowerCase x"
    unfolding list_ex_iff by blast
  with assms show "toLowerCase x \<in> set exts"
    by fastforce
qed

text \<open>
  Claim C7, as amended. For a directory that does not exist \<open>getFilesByExtension\<close> returns
  the empty list, not an error. For a directory it returns the entries whose lower-cased
  extension (with its leading dot) is a member of the accepted list; when the accepted
  extensions are themselves in lower case, these are the entries whose extension matches an
  accepted one without regard to case.
\<close>

theorem getFilesByExtension_filters:
  "(\<not> existsSync fs dirPath \<longrightarrow> getFilesByExtension fs dirPath exts = Inr []) \<and>
   (readdirSync fs dirPath = Inr entries \<longrightarrow>
      getFilesByExtension fs dirPath exts =
        Inr (filter (\<lambda>f. toLowerCase (path_extname f) \<in> set exts) entries)) \<and>
   (readdirSync fs dirPath = Inr entries \<and> (\<forall>e \<in> set exts. toLowerCase e = e) \<longrightarrow>
      getFilesByExtension fs dirPath exts = Inr (spec_matching_files exts entries))"
proof -
  have lower: "getFilesByExtension fs dirPath exts = Inr (spec_matching_files exts entries)"
    if a: "readdirSync fs dirPath = Inr entries \<and> (\<forall>e \<in> set exts. toLowerCase e = e)"
  proof -
    from a have l: "\<forall>e \<in> set exts. toLowerCase e = e"
      by simp
    have "filter (\<lambda>f. toLowerCase (path_extname f) \<in> set exts) entries =
            spec_matching_files exts entries"
      unfolding spec_matching_files_def lower_case_accepts [OF l] ..
    with a show ?thesis
      by (simp add: getFilesByExtension_listed)
  qed
  from getFilesByExtension_absent getFilesByExtension_listed lower show ?thesis
    by blast
qed

theorem getFilesByExtension_filters_witness:
  "getFilesByExtension fs_listing ''/app/outputs'' AUDIO_EXTENSIONS = Inr [] \<and>
   getFilesByExtension fs_listing ''/app/uploads'' IMAGE_EXTENSIONS =
     Inr [''a.jpg'', ''b.PNG'', ''c-17.gif''] \<and>
   getFilesByExtension fs_listing ''/app/uploads'' IMAGE_EXTENSIONS =
     Inr (spec_matching_files IMAGE_EXTENSIONS [''a.jpg'', ''b.PNG'', ''c-17.gif'', ''notes.txt'', ''.jpg''])"
proof -
  have absent: "\<not> existsSync fs_listing ''/app/outputs''"
    by (simp add: existsSync_def fs_listing_def)
  have listed: "readdirSync fs_listing ''/app/uploads'' =
      Inr [''a.jpg'', ''b.PNG'', ''c-17.gif'', ''notes.txt'', ''.jpg'']"
    by (simp add: readdirSync_def fs_listing_def)
  have lower: "\<forall>e \<in> set IMAGE_EXTENSIONS. toLowerCase e = e"
    by code_simp
  have kept: "filter (\<lambda>f. toLowerCase (path_extname f) \<in> set IMAGE_EXTENSIONS)
      [''a.jpg'', ''b.PNG'', ''c-17.gif'', ''notes.txt'', ''.jpg''] = [''a.jpg'', ''b.PNG'', ''c-17.gif'']"
    by code_simp
  have a: "getFilesByExtension fs_listing ''/app/outputs'' AUDIO_EXTENSIONS = Inr []"
    using getFilesByExtension_filters [of fs_listing "''/app/outputs''" AUDIO_EXTENSIONS "[]"] absent
    by simp
  note t = getFilesByExtension_filters [of fs_listing "''/app/uploads''" IMAGE_EXTENSIONS
      "[''a.jpg'', ''b.PNG'', ''c-17.gif'', ''notes.txt'', ''.jpg'']"]
  have b: "getFilesByExtension fs_listing ''/app/uploads'' IMAGE_EXTENSIONS =
     Inr [''a.jpg'', ''b.PNG'', ''c-17.gif'']"
    using t listed kept by simp
  have c: "getFilesByExtension fs_listing ''/app/uploads'' IMAGE_EXTENSIONS =
     Inr (spec_matching_files IMAGE_EXTENSIONS [''a.jpg'', ''b.PNG'', ''c-17.gif'', ''notes.txt'', ''.jpg''])"
    using t listed lower by blast
  from a b c show ?thesis
    by simp
qed

text \<open>
  Only the file's extension is lower-cased, the accepted extensions are taken as they are:
  with \<open>.JPG\<close> accepted, the entry \<open>a.JPG\<close> is not returned.
\<close>

theorem upper_case_extension_counterexample:
  "readdirSync fs_upper ''/app/uploads'' = Inr [''a.JPG''] \<and>
   getFilesByExtension fs_upper ''/app/uploads'' [''.JPG''] = Inr [] \<and>
   spec_matching_files [''.JPG''] [''a.JPG''] = [''a.JPG'']"
  by code_simp

section \<open>Properties of the matcher\<close>

lemma matchStep_append:
  "matchStep fs cwd im am k acc = acc @ matchStep fs cwd im am k []"
  by (simp add: matchStep_def Let_def split: option.splits)

lemma fold_matchStep:
  "fold (matchStep fs cwd im am) ns acc = acc @ matchedList fs cwd im am ns"
proof (induction ns arbitrary: acc)
  case Nil
  show ?case by (simp add: matchedList_def)
next
  case (Cons n ns)
  have "fold (matchStep fs cwd im am) (n # ns) acc =
          (acc @ matchStep fs cwd im am n []) @ matchedList fs cwd im am ns"
    using Cons [of "matchStep fs cwd im am n acc"] matchStep_append [of fs cwd im am n acc]
    by simp
  then show ?case
    by (simp add: matchedList_def)
qed

lemma matchStep_record:
  assumes "r \<in> set (matchStep fs cwd im am k [])"
  shows "name r = k"
    and "prompt r = or_undefined (readTextFile fs (path_join (TEXTS cwd) (k @ ''.txt'')))"
    and "\<exists>i. Map_get im k = Some i \<and> imageUrl r = ''/uploads/'' @ i"
  using assms by (auto simp: matchStep_def Let_def split: option.splits if_splits)

lemma matchStep_count:
  "length (filter (\<lambda>r. name r = k) (matchStep fs cwd im am n [])) =
     (if n = k \<and> bothTruthy im am k then 1 else 0)"
  by (auto simp: matchStep_def bothTruthy_def Let_def split: option.splits)

lemma matchedList_record:
  assumes "r \<in> set (matchedList fs cwd im am ns)"
  shows "r \<in> set (matchStep fs cwd im am (name r) [])"
proof -
  from assms obtain n where "r \<in> set (matchStep fs cwd im am n [])"
    unfolding matchedList_def by auto
  with matchStep_record(1) [OF this] show ?thesis
    by simp
qed

lemma matchedList_count:
  assumes "distinct ns"
  shows "length (filter (\<lambda>r. name r = k) (matchedList fs cwd im am ns)) =
           (if k \<in> set ns \<and> bothTruthy im am k then 1 else 0)"
  using assms
proof (induction ns)
  case Nil
  show ?case by (simp add: matchedList_def)
next
  case (Cons n ns)
  have split: "matchedList fs cwd im am (n # ns) =
                 matchStep fs cwd im am n [] @ matchedList fs cwd im am ns"
    by (simp add: matchedList_def)
  from Cons show ?case
    unfolding split by (auto simp: matchStep_count)
qed

lemma Set_from_fold:
  "distinct acc \<Longrightarrow> distinct (fold Set_add xs acc) \<and> set (fold Set_add xs acc) = set acc \<union> set xs"
  by (induction xs arbitrary: acc) (auto simp: Set_add_def)

lemma Set_from_distinct: "distinct (Set_from xs)" and Set_from_set: "set (Set_from xs) = set xs"
  using Set_from_fold [of "[]" xs] by (simp_all add: Set_from_def)

lemma insert_sorted_filter:
  "length (filter P (insert_sorted cmp x xs)) = length (filter P (x # xs))"
  by (induction xs) auto

lemma Array_sort_filter: "length (filter P (Array_sort cmp xs)) = length (filter P xs)"
  by (induction xs) (simp_all add: Array_sort_def insert_sorted_filter)

lemma insert_sorted_set: "set (insert_sorted cmp x xs) = insert x (set xs)"
  by (induction xs) auto

lemma Array_sort_set: "set (Array_sort cmp xs) = set xs"
  by (induction xs) (simp_all add: Array_sort_def insert_sorted_set)

lemma insert_sorted_descending:
  fixes key :: "'a \<Rightarrow> real"
  assumes "sorted_wrt (\<lambda>a b. key b \<le> key a) xs"
  shows "sorted_wrt (\<lambda>a b. key b \<le> key a) (insert_sorted (\<lambda>a b. key b - key a) x xs)"
  using assms by (induction xs) (auto simp: insert_sorted_set)

lemma Array_sort_descending:
  fixes key :: "'a \<Rightarrow> real"
  shows "sorted_wrt (\<lambda>a b. key b \<le> key a) (Array_sort (\<lambda>a b. key b - key a) xs)"
proof (induction xs)
  case Nil
  show ?case by (simp add: Array_sort_def)
next
  case (Cons x xs)
  then show ?case
    using insert_sorted_descending [of key "Array_sort (\<lambda>a b. key b - key a) xs" x]
    by (simp add: Array_sort_def)
qed

lemma Map_get_keys: "(Map_get m k \<noteq> None) = (k \<in> set (Map_keys m))"
  by (simp add: Map_get_def Map_keys_def map_of_eq_None_iff)

lemma scanned_extension:
  assumes "getFilesByExtension fs dirPath exts = Inr files" and "f \<in> set files"
  shows "toLowerCase (path_extname f) \<in> set exts"
  using assms
  by (auto simp: getFilesByExtension_def split: if_splits sum.splits)

lemma path_extname_empty: "path_extname [] = []"
  by code_simp

lemma scanned_nonempty:
  assumes "getFilesByExtension fs dirPath exts = Inr files" and "f \<in> set files"
    and "[] \<notin> set exts"
  shows "f \<noteq> []"
proof
  assume "f = []"
  with scanned_extension [OF assms(1,2)] have "[] \<in> set exts"
    by (simp add: path_extname_empty toLowerCase_def)
  with assms(3) show False
    by simp
qed

lemma createFileMap_value:
  assumes "Map_get (createFileMap fs files fn dir) k = Some f"
  shows "f \<in> set files"
  using entries_ok_createFileMap [of fs fn dir files] assms unfolding entries_ok_def by blast

lemma matchFiles_scanned:
  assumes "getFilesByExtension fs (UPLOADS cwd) IMAGE_EXTENSIONS = Inr uploadFiles"
    and "getFilesByExtension fs (OUTPUTS cwd) AUDIO_EXTENSIONS = Inr outputFiles"
  shows "matchFiles fs cwd =
           Inr (Array_sort (compareByMtime fs cwd)
             (matchedList fs cwd
               (createFileMap fs uploadFiles getBaseName (UPLOADS cwd))
               (createFileMap fs outputFiles path_parse_name (OUTPUTS cwd))
               (Set_from (Map_keys (createFileMap fs uploadFiles getBaseName (UPLOADS cwd)) @
                          Map_keys (createFileMap fs outputFiles path_parse_name (OUTPUTS cwd))))))"
  using assms by (simp add: matchFiles_def Let_def fold_matchStep)

lemma bothTruthy_present:
  assumes up: "getFilesByExtension fs (UPLOADS cwd) IMAGE_EXTENSIONS = Inr uploadFiles"
    and out: "getFilesByExtension fs (OUTPUTS cwd) AUDIO_EXTENSIONS = Inr outputFiles"
  shows "bothTruthy (createFileMap fs uploadFiles getBaseName (UPLOADS cwd))
           (createFileMap fs outputFiles path_parse_name (OUTPUTS cwd)) k =
         (Map_get (createFileMap fs uploadFiles getBaseName (UPLOADS cwd)) k \<noteq> None \<and>
          Map_get (createFileMap fs outputFiles path_parse_name (OUTPUTS cwd)) k \<noteq> None)"
proof -
  have i: "[] \<notin> set IMAGE_EXTENSIONS" and a: "[] \<notin> set AUDIO_EXTENSIONS"
    by (simp_all add: IMAGE_EXTENSIONS_def AUDIO_EXTENSIONS_def)
  have "f \<noteq> []" if "Map_get (createFileMap fs uploadFiles getBaseName (UPLOADS cwd)) k = Some f" for f
    using scanned_nonempty [OF up createFileMap_value [OF that] i] .
  moreover have "f \<noteq> []"
    if "Map_get (createFileMap fs outputFiles path_parse_name (OUTPUTS cwd)) k = Some f" for f
    using scanned_nonempty [OF out createFileMap_value [OF that] a] .
  ultimately show ?thesis
    unfolding bothTruthy_def by (auto split: option.splits)
qed

lemma matchFiles_name_count:
  assumes up: "getFilesByExtension fs (UPLOADS cwd) IMAGE_EXTENSIONS = Inr uploadFiles"
    and out: "getFilesByExtension fs (OUTPUTS cwd) AUDIO_EXTENSIONS = Inr outputFiles"
  obtains rs where "matchFiles fs cwd = Inr rs"
    and "set rs = set (matchedList fs cwd (imageMapOf fs cwd uploadFiles) (audioMapOf fs cwd outputFiles)
           (Set_from (Map_keys (imageMapOf fs cwd uploadFiles) @ Map_keys (audioMapOf fs cwd outputFiles))))"
    and "sorted_wrt (\<lambda>a b. imageMtime fs cwd b \<le> imageMtime fs cwd a) rs"
    and "\<And>k. length (filter (\<lambda>r. name r = k) rs) =
           (if Map_get (imageMapOf fs cwd uploadFiles) k \<noteq> None \<and>
               Map_get (audioMapOf fs cwd outputFiles) k \<noteq> None then 1 else 0)"
proof -
  let ?im = "imageMapOf fs cwd uploadFiles" and ?am = "audioMapOf fs cwd outputFiles"
  let ?ns = "Set_from (Map_keys ?im @ Map_keys ?am)"
  let ?rs = "Array_sort (compareByMtime fs cwd) (matchedList fs cwd ?im ?am ?ns)"
  have r: "matchFiles fs cwd = Inr ?rs"
    unfolding imageMapOf_def audioMapOf_def by (rule matchFiles_scanned [OF up out])
  have s: "set ?rs = set (matchedList fs cwd ?im ?am ?ns)"
    by (rule Array_sort_set)
  have cmp: "compareByMtime fs cwd = (\<lambda>a b. imageMtime fs cwd b - imageMtime fs cwd a)"
    by (simp add: compareByMtime_def fun_eq_iff)
  have d: "sorted_wrt (\<lambda>a b. imageMtime fs cwd b \<le> imageMtime fs cwd a) ?rs"
    unfolding cmp by (rule Array_sort_descending)
  have c: "length (filter (\<lambda>r. name r = k) ?rs) =
           (if Map_get ?im k \<noteq> None \<and> Map_get ?am k \<noteq> None then 1 else 0)" for k
  proof -
    have t: "bothTruthy ?im ?am k = (Map_get ?im k \<noteq> None \<and> Map_get ?am k \<noteq> None)"
      unfolding imageMapOf_def audioMapOf_def by (rule bothTruthy_present [OF up out])
    have "length (filter (\<lambda>r. name r = k) ?rs) =
            (if k \<in> set ?ns \<and> bothTruthy ?im ?am k then 1 else 0)"
      unfolding Array_sort_filter by (rule matchedList_count [OF Set_from_distinct])
    also have "\<dots> = (if Map_get ?im k \<noteq> None \<and> Map_get ?am k \<noteq> None then 1 else 0)"
      unfolding t by (auto simp: Set_from_set Map_get_keys [symmetric])
    finally show ?thesis .
  qed
  from r s d c show ?thesis
    by (rule that)
qed

lemma matchFiles_record_prompt:
  assumes "r \<in> set (matchedList fs cwd im am ns)"
  shows "prompt r = or_undefined (readTextFile fs (promptPath cwd (name r)))"
  using matchStep_record(2) [OF matchedList_record [OF assms]] by (simp add: promptPath_def)


lemma trim_blank:
  assumes "list_all isWhitespace content"
  shows "trim content = []"
proof -
  have d: "dropWhile isWhitespace content = []"
    using assms by (induction content) simp_all
  show ?thesis
    unfolding trim_def d by simp
qed

lemma readTextFile_blank:
  assumes "readFileSync fs p = Inr content" and "list_all isWhitespace content"
  shows "readTextFile fs p = []"
  using assms by (simp add: readTextFile_def trim_blank)

lemma split_pop_url:
  assumes "CHR ''/'' \<notin> set f"
  shows "split_pop (''/uploads/'' @ f) = f"
proof -
  have "takeWhile (\<lambda>c. c \<noteq> CHR ''/'') (rev f @ rev ''/uploads/'') =
          rev f @ takeWhile (\<lambda>c. c \<noteq> CHR ''/'') (rev ''/uploads/'')"
    by (rule takeWhile_append2) (use assms in auto)
  then show ?thesis
    by (simp add: split_pop_def)
qed

lemma up_three: "getFilesByExtension fs_three (UPLOADS ''/app'') IMAGE_EXTENSIONS =
    Inr [''a.jpg'', ''b.png'', ''c.gif'', ''d.webp'', ''lonely.jpg'']"
  by code_simp

lemma out_three: "getFilesByExtension fs_three (OUTPUTS ''/app'') AUDIO_EXTENSIONS =
    Inr [''a.wav'', ''b.wav'', ''c.wav'', ''d.wav'', ''orphan.wav'']"
  by code_simp

lemma matchFiles_three: "matchFiles fs_three ''/app'' = Inr result_three"
  by code_simp

lemma mtimes_three: "map (imageMtime fs_three ''/app'') result_three = [300, 200, 100, 0]"
  by code_simp

lemma present_three:
  "Map_get (imageMapOf fs_three ''/app'' [''a.jpg'', ''b.png'', ''c.gif'', ''d.webp'', ''lonely.jpg'']) ''a'' \<noteq> None"
  "Map_get (audioMapOf fs_three ''/app'' [''a.wav'', ''b.wav'', ''c.wav'', ''d.wav'', ''orphan.wav'']) ''a'' \<noteq> None"
  "Map_get (imageMapOf fs_three ''/app'' [''a.jpg'', ''b.png'', ''c.gif'', ''d.webp'', ''lonely.jpg'']) ''b'' \<noteq> None"
  "Map_get (audioMapOf fs_three ''/app'' [''a.wav'', ''b.wav'', ''c.wav'', ''d.wav'', ''orphan.wav'']) ''b'' \<noteq> None"
  "Map_get (imageMapOf fs_three ''/app'' [''a.jpg'', ''b.png'', ''c.gif'', ''d.webp'', ''lonely.jpg'']) ''c'' \<noteq> None"
  "Map_get (audioMapOf fs_three ''/app'' [''a.wav'', ''b.wav'', ''c.wav'', ''d.wav'', ''orphan.wav'']) ''c'' \<noteq> None"
  "Map_get (imageMapOf fs_three ''/app'' [''a.jpg'', ''b.png'', ''c.gif'', ''d.webp'', ''lonely.jpg'']) ''d'' \<noteq> None"
  "Map_get (audioMapOf fs_three ''/app'' [''a.wav'', ''b.wav'', ''c.wav'', ''d.wav'', ''orphan.wav'']) ''d'' \<noteq> None"
  "Map_get (imageMapOf fs_three ''/app'' [''a.jpg'', ''b.png'', ''c.gif'', ''d.webp'', ''lonely.jpg'']) ''lonely'' \<noteq> None"
  "Map_get (audioMapOf fs_three ''/app'' [''a.wav'', ''b.wav'', ''c.wav'', ''d.wav'', ''orphan.wav'']) ''lonely'' = None"
  "Map_get (imageMapOf fs_three ''/app'' [''a.jpg'', ''b.png'', ''c.gif'', ''d.webp'', ''lonely.jpg'']) ''orphan'' = None"
  by code_simp+

lemma matchFiles_order:
  "\<exists>rs. matchFiles fs_order ''/app'' = Inr rs \<and> map name rs = [''x'', ''z'', ''y''] \<and>
     map (imageMtime fs_order ''/app'') rs = [300, 200, 100]"
proof -
  have "matchFiles fs_order ''/app'' =
      Inr [\<lparr>imageUrl = ''/uploads/x.jpg'', audioUrl = ''/outputs/x.wav'', name = ''x'', prompt = None\<rparr>,
           \<lparr>imageUrl = ''/uploads/z.jpg'', audioUrl = ''/outputs/z.wav'', name = ''z'', prompt = None\<rparr>,
           \<lparr>imageUrl = ''/uploads/y.jpg'', audioUrl = ''/outputs/y.wav'', name = ''y'', prompt = None\<rparr>]"
    by code_simp
  moreover have "map (imageMtime fs_order ''/app'')
         [\<lparr>imageUrl = ''/uploads/x.jpg'', audioUrl = ''/outputs/x.wav'', name = ''x'', prompt = None\<rparr>,
           \<lparr>imageUrl = ''/uploads/z.jpg'', audioUrl = ''/outputs/z.wav'', name = ''z'', prompt = None\<rparr>,
           \<lparr>imageUrl = ''/uploads/y.jpg'', audioUrl = ''/outputs/y.wav'', name = ''y'', prompt = None\<rparr>]
       = [300, 200, 100]"
    by code_simp
  ultimately show ?thesis
    by simp
qed

lemma listing_order:
  "getFilesByExtension fs_order (UPLOADS ''/app'') IMAGE_EXTENSIONS = Inr [''x.jpg'', ''y.jpg'', ''z.jpg''] \<and>
   map (fileMtime fs_order (UPLOADS ''/app'')) [''x.jpg'', ''y.jpg'', ''z.jpg''] = [300, 100, 200]"
  by code_simp

text \<open>
  Claim C3. When both directory scans succeed, \<open>matchFiles\<close> returns a list in which every
  LogicalName that is a key of both the image map and the audio map names exactly one
  record, and every other name names none.
\<close>

theorem matchFiles_both_maps:
  assumes up: "getFilesByExtension fs (UPLOADS cwd) IMAGE_EXTENSIONS = Inr uploadFiles"
    and out: "getFilesByExtension fs (OUTPUTS cwd) AUDIO_EXTENSIONS = Inr outputFiles"
  shows "\<exists>rs. matchFiles fs cwd = Inr rs \<and>
           (\<forall>k. length (filter (\<lambda>r. name r = k) rs) =
              (if Map_get (imageMapOf fs cwd uploadFiles) k \<noteq> None \<and>
                  Map_get (audioMapOf fs cwd outputFiles) k \<noteq> None then 1 else 0))"
proof -
  from matchFiles_name_count [OF up out] obtain rs where "matchFiles fs cwd = Inr rs"
    and "\<And>k. length (filter (\<lambda>r. name r = k) rs) =
           (if Map_get (imageMapOf fs cwd uploadFiles) k \<noteq> None \<and>
               Map_get (audioMapOf fs cwd outputFiles) k \<noteq> None then 1 else 0)"
    by blast
  then show ?thesis
    by blast
qed

theorem matchFiles_both_maps_witness:
  "\<exists>rs. matchFiles fs_three ''/app'' = Inr rs \<and>
     length (filter (\<lambda>r. name r = ''a'') rs) = 1 \<and>
     length (filter (\<lambda>r. name r = ''lonely'') rs) = 0 \<and>
     length (filter (\<lambda>r. name r = ''orphan'') rs) = 0"
proof -
  from matchFiles_both_maps [OF up_three out_three] obtain rs
    where r: "matchFiles fs_three ''/app'' = Inr rs"
      and c: "\<And>k. length (filter (\<lambda>r. name r = k) rs) =
        (if Map_get (imageMapOf fs_three ''/app''
               [''a.jpg'', ''b.png'', ''c.gif'', ''d.webp'', ''lonely.jpg'']) k \<noteq> None \<and>
            Map_get (audioMapOf fs_three ''/app''
               [''a.wav'', ''b.wav'', ''c.wav'', ''d.wav'', ''orphan.wav'']) k \<noteq> None then 1 else 0)"
    by blast
  have "length (filter (\<lambda>r. name r = ''a'') rs) = 1"
    and "length (filter (\<lambda>r. name r = ''lonely'') rs) = 0"
    and "length (filter (\<lambda>r. name r = ''orphan'') rs) = 0"
    unfolding c using present_three by simp_all
  with r show ?thesis
    by blast
qed

text \<open>
  Claim C4. The list \<open>matchFiles\<close> returns is in descending order of the modification time
  the comparator reads for each record; when no directory entry contains a slash, that is
  the time of the record's image file, the winner of the image map, with zero for a file
  that is missing. For a directory whose three matched images are listed with times
  300, 100, 200, the records come back in the order 300, 200, 100.
\<close>

theorem matchFiles_newest_first:
  "(getFilesByExtension fs (UPLOADS cwd) IMAGE_EXTENSIONS = Inr uploadFiles \<and>
    getFilesByExtension fs (OUTPUTS cwd) AUDIO_EXTENSIONS = Inr outputFiles \<and>
    (\<forall>f \<in> set uploadFiles. CHR ''/'' \<notin> set f) \<longrightarrow>
    (\<exists>rs. matchFiles fs cwd = Inr rs \<and>
       sorted_wrt (\<lambda>a b. imageMtime fs cwd b \<le> imageMtime fs cwd a) rs \<and>
       (\<forall>r \<in> set rs. \<exists>f. Map_get (imageMapOf fs cwd uploadFiles) (name r) = Some f \<and>
          imageUrl r = ''/uploads/'' @ f \<and>
          imageMtime fs cwd r = fileMtime fs (UPLOADS cwd) f))) \<and>
   getFilesByExtension fs_order (UPLOADS ''/app'') IMAGE_EXTENSIONS =
     Inr [''x.jpg'', ''y.jpg'', ''z.jpg''] \<and>
   map (fileMtime fs_order (UPLOADS ''/app'')) [''x.jpg'', ''y.jpg'', ''z.jpg''] = [300, 100, 200] \<and>
   (\<exists>rs. matchFiles fs_order ''/app'' = Inr rs \<and> map name rs = [''x'', ''z'', ''y''] \<and>
      map (imageMtime fs_order ''/app'') rs = [300, 200, 100])"
proof -
  have general: "\<exists>rs. matchFiles fs cwd = Inr rs \<and>
       sorted_wrt (\<lambda>a b. imageMtime fs cwd b \<le> imageMtime fs cwd a) rs \<and>
       (\<forall>r \<in> set rs. \<exists>f. Map_get (imageMapOf fs cwd uploadFiles) (name r) = Some f \<and>
          imageUrl r = ''/uploads/'' @ f \<and>
          imageMtime fs cwd r = fileMtime fs (UPLOADS cwd) f)"
    if a: "getFilesByExtension fs (UPLOADS cwd) IMAGE_EXTENSIONS = Inr uploadFiles \<and>
      getFilesByExtension fs (OUTPUTS cwd) AUDIO_EXTENSIONS = Inr outputFiles \<and>
      (\<forall>f \<in> set uploadFiles. CHR ''/'' \<notin> set f)"
  proof -
    from a have up: "getFilesByExtension fs (UPLOADS cwd) IMAGE_EXTENSIONS = Inr uploadFiles"
      and out: "getFilesByExtension fs (OUTPUTS cwd) AUDIO_EXTENSIONS = Inr outputFiles"
      and plain: "\<And>f. f \<in> set uploadFiles \<Longrightarrow> CHR ''/'' \<notin> set f"
      by simp_all
    let ?im = "imageMapOf fs cwd uploadFiles" and ?am = "audioMapOf fs cwd outputFiles"
    from matchFiles_name_count [OF up out] obtain rs where r: "matchFiles fs cwd = Inr rs"
      and s: "set rs = set (matchedList fs cwd ?im ?am (Set_from (Map_keys ?im @ Map_keys ?am)))"
      and d: "sorted_wrt (\<lambda>a b. imageMtime fs cwd b \<le> imageMtime fs cwd a) rs"
      by blast
    have "\<exists>f. Map_get ?im (name x) = Some f \<and> imageUrl x = ''/uploads/'' @ f \<and>
            imageMtime fs cwd x = fileMtime fs (UPLOADS cwd) f" if "x \<in> set rs" for x
    proof -
      from that s have "x \<in> set (matchStep fs cwd ?im ?am (name x) [])"
        using matchedList_record by blast
      from matchStep_record(3) [OF this] obtain f where g: "Map_get ?im (name x) = Some f"
        and u: "imageUrl x = ''/uploads/'' @ f"
        by blast
      from g have "f \<in> set uploadFiles"
        unfolding imageMapOf_def by (rule createFileMap_value)
      then have "split_pop (imageUrl x) = f"
        unfolding u by (intro split_pop_url plain)
      then have "imageMtime fs cwd x = fileMtime fs (UPLOADS cwd) f"
        by (simp add: imageMtime_def fileMtime_def)
      with g u show ?thesis
        by blast
    qed
    with r d show ?thesis
      by blast
  qed
  from general listing_order matchFiles_order show ?thesis
    by blast
qed

theorem matchFiles_newest_first_witness:
  "matchFiles fs_three ''/app'' = Inr result_three \<and>
   sorted_wrt (\<lambda>a b. imageMtime fs_three ''/app'' b \<le> imageMtime fs_three ''/app'' a) result_three \<and>
   map (imageMtime fs_three ''/app'') result_three = [300, 200, 100, 0]"
proof -
  have plain: "\<forall>f \<in> set [''a.jpg'', ''b.png'', ''c.gif'', ''d.webp'', ''lonely.jpg'']. CHR ''/'' \<notin> set f"
    by simp
  from matchFiles_newest_first
    [of fs_three "''/app''" "[''a.jpg'', ''b.png'', ''c.gif'', ''d.webp'', ''lonely.jpg'']"
      "[''a.wav'', ''b.wav'', ''c.wav'', ''d.wav'', ''orphan.wav'']"]
    up_three out_three plain
  obtain rs where "matchFiles fs_three ''/app'' = Inr rs"
    and "sorted_wrt (\<lambda>a b. imageMtime fs_three ''/app'' b \<le> imageMtime fs_three ''/app'' a) rs"
    by blast
  with matchFiles_three mtimes_three show ?thesis
    by simp
qed








text \<open>
  Claim C10. For a name in both maps whose prompt file is read and contains nothing but
  white space (or nothing at all), \<open>readTextFile\<close> returns what it returns when the file is
  missing, and the one record of that name has no prompt field.
\<close>

theorem matchFiles_blank_prompt:
  assumes up: "getFilesByExtension fs (UPLOADS cwd) IMAGE_EXTENSIONS = Inr uploadFiles"
    and out: "getFilesByExtension fs (OUTPUTS cwd) AUDIO_EXTENSIONS = Inr outputFiles"
    and present: "Map_get (imageMapOf fs cwd uploadFiles) k \<noteq> None"
      "Map_get (audioMapOf fs cwd outputFiles) k \<noteq> None"
    and content: "readFileSync fs (promptPath cwd k) = Inr content"
    and blank: "list_all isWhitespace content"
  shows "readTextFile fs (promptPath cwd k) = readTextFile (fs(promptPath cwd k := None)) (promptPath cwd k) \<and>
         (\<exists>rs. matchFiles fs cwd = Inr rs \<and>
            length (filter (\<lambda>r. name r = k) rs) = 1 \<and>
            (\<forall>r \<in> set rs. name r = k \<longrightarrow> prompt r = None))"
proof -
  let ?im = "imageMapOf fs cwd uploadFiles" and ?am = "audioMapOf fs cwd outputFiles"
  have empty: "readTextFile fs (promptPath cwd k) = []"
    using content blank by (rule readTextFile_blank)
  have missing: "readTextFile (fs(promptPath cwd k := None)) (promptPath cwd k) = []"
    by (simp add: readTextFile_def existsSync_def)
  from matchFiles_name_count [OF up out] obtain rs where r: "matchFiles fs cwd = Inr rs"
    and s: "set rs = set (matchedList fs cwd ?im ?am (Set_from (Map_keys ?im @ Map_keys ?am)))"
    and c: "\<And>k. length (filter (\<lambda>r. name r = k) rs) =
           (if Map_get ?im k \<noteq> None \<and> Map_get ?am k \<noteq> None then 1 else 0)"
    by blast
  have "prompt x = None" if "x \<in> set rs" and "name x = k" for x
    using matchFiles_record_prompt [of x fs cwd ?im ?am] that s empty
    by (simp add: or_undefined_def)
  with r c [of k] present empty missing show ?thesis
    by auto
qed

theorem matchFiles_blank_prompt_witness:
  "readFileSync fs_three (promptPath ''/app'' ''b'') = Inr [CHR '' '', CHR 0x09, CHR 0x0A] \<and>
   list_all isWhitespace [CHR '' '', CHR 0x09, CHR 0x0A] \<and>
   readTextFile fs_three (promptPath ''/app'' ''b'') =
     readTextFile (fs_three(promptPath ''/app'' ''b'' := None)) (promptPath ''/app'' ''b'') \<and>
   (\<exists>rs. matchFiles fs_three ''/app'' = Inr rs \<and>
      length (filter (\<lambda>r. name r = ''b'') rs) = 1 \<and>
      list_all (\<lambda>r. name r \<noteq> ''b'' \<or> prompt r = None) rs)"
proof -
  have c: "readFileSync fs_three (promptPath ''/app'' ''b'') = Inr [CHR '' '', CHR 0x09, CHR 0x0A]"
    by code_simp
  have b: "list_all isWhitespace [CHR '' '', CHR 0x09, CHR 0x0A]"
    by code_simp
  from matchFiles_blank_prompt [OF up_three out_three present_three(3,4) c b]
  obtain rs where "matchFiles fs_three ''/app'' = Inr rs"
    and "length (filter (\<lambda>r. name r = ''b'') rs) = 1"
    and "\<forall>r \<in> set rs. name r = ''b'' \<longrightarrow> prompt r = None"
    and "readTextFile fs_three (promptPath ''/app'' ''b'') =
     readTextFile (fs_three(promptPath ''/app'' ''b'' := None)) (promptPath ''/app'' ''b'')"
    by blast
  with c b show ?thesis
    by (intro conjI exI [of _ rs]) (auto simp: list_all_iff)
qed

section \<open>The names the generation handler writes\<close>

text \<open>
  Claim C5. The handler names the audio and prompt files after the stem of the original
  file name, \<open>path.parse(originalname).name\<close>, not after \<open>getBaseName\<close>. For the upload
  \<open>sunset-1700000000.jpg\<close> the LogicalName is \<open>sunset\<close>, the files written are
  \<open>sunset-1700000000.wav\<close> and \<open>sunset-1700000000.txt\<close>, and \<open>matchFiles\<close> on the resulting
  directories pairs nothing.
\<close>

theorem generate_names_keep_suffix:
  "storedFilename (generate_names ''/app'' ''sunset-1700000000.jpg'') = ''sunset-1700000000.jpg'' \<and>
   getBaseName ''sunset-1700000000.jpg'' = ''sunset'' \<and>
   outputFilename (generate_names ''/app'' ''sunset-1700000000.jpg'') = ''sunset-1700000000.wav'' \<and>
   outputPath (generate_names ''/app'' ''sunset-1700000000.jpg'') =
     ''/app/outputs/sunset-1700000000.wav'' \<and>
   textFilePath (generate_names ''/app'' ''sunset-1700000000.jpg'') =
     ''/app/texts/sunset-1700000000.txt'' \<and>
   matchFiles fs_generated ''/app'' = Inr []"
  by code_simp

text \<open>
  Where \<open>getBaseName\<close> strips nothing, the two names agree.
\<close>

lemma generate_names_plain:
  assumes "getBaseName originalname = path_parse_name originalname"
  shows "outputFilename (generate_names cwd originalname) = getBaseName originalname @ ''.wav''"
    and "textFilePath (generate_names cwd originalname) =
           path_join (TEXTS cwd) (getBaseName originalname @ ''.txt'')"
  using assms by (simp_all add: generate_names_def Let_def)

end
